theory Spec2Isabelle
  imports Complex_Main "HOL-Library.Multiset"
begin

section \<open>Values of the host language\<close>

text \<open>
  The component is TypeScript. Its integers (selector bounds, indices, counts) are modelled
  as \<open>int\<close> and \<open>nat\<close>: they are taken small enough for JavaScript's arithmetic on them
  to be exact, for its numerals to print every digit and for arrays of that length to
  exist. Activations are modelled as \<open>real\<close> (the specification calls them opaque real
  numbers; the not-a-number value of floating point is outside the model). An exception
  of the tensor library, a \<open>TypeError\<close> and a \<open>RangeError\<close> of the runtime are values of
  the type \<open>error\<close>.
\<close>

datatype error = TfError | TypeError | RangeError

text \<open>
  Reading a JavaScript array never fails: \<open>xs[i]\<close> with \<open>i\<close> outside the array is
  \<open>undefined\<close>, which is \<open>None\<close> here.
\<close>

definition js_index :: "'a list \<Rightarrow> nat \<Rightarrow> 'a option" where
  "js_index xs i = (if i < length xs then Some (xs ! i) else None)"

text \<open>
  \<open>[...Array(n).keys()]\<close>: the numbers \<open>0, ..., n - 1\<close>; \<open>Array(n)\<close> with a negative
  \<open>n\<close> throws a \<open>RangeError\<close>.
\<close>

definition array_keys :: "int \<Rightarrow> error + int list" where
  "array_keys n = (if n < 0 then Inl RangeError else Inr (map int [0..<nat n]))"

text \<open>The decimal numeral of a template literal \<open>`${i}`\<close>, for an integer \<open>i\<close>.\<close>

fun showNat :: "nat \<Rightarrow> string" where
  "showNat n =
     (if n < 10 then [''0123456789'' ! n]
      else showNat (n div 10) @ [''0123456789'' ! (n mod 10)])"

declare showNat.simps [simp del]

definition showInt :: "int \<Rightarrow> string" where
  "showInt i = (if i < 0 then ''-'' @ showNat (nat (- i)) else showNat (nat i))"

section \<open>The selectors\<close>

subsection \<open>RangeSelector\<close>

text \<open>
  The loop of \<open>RangeSelector\<close> that builds the option labels:
  \<^verbatim>\<open>for (let i = smallestNumber; i <= largestNumber; i += numValsInRange)\<close>.
  With \<open>numValsInRange \<le> 0\<close> and \<open>i \<le> largestNumber\<close> the loop never leaves; that is the
  value \<open>None\<close>.
\<close>

definition rangeLabel :: "int \<Rightarrow> int \<Rightarrow> string" where
  "rangeLabel start end' =
     (if start = end' then showInt start else showInt start @ ''-'' @ showInt end')"

function ranges_loop :: "int \<Rightarrow> int \<Rightarrow> int \<Rightarrow> string list option" where
  "ranges_loop i largestNumber numValsInRange =
     (if i \<le> largestNumber then
        (if numValsInRange \<le> 0 then None
         else
           (let start = i;
                end' = min (i + numValsInRange - 1) largestNumber
            in map_option ((#) (rangeLabel start end'))
                 (ranges_loop (i + numValsInRange) largestNumber numValsInRange)))
      else Some [])"
  by pat_completeness auto
termination
  by (relation "measure (\<lambda>(i, largestNumber, numValsInRange). nat (largestNumber - i + 1))") auto

declare ranges_loop.simps [simp del]

definition RangeSelector_ranges :: "int \<Rightarrow> int \<Rightarrow> int \<Rightarrow> string list option" where
  "RangeSelector_ranges smallestNumber largestNumber numValsInRange =
     ranges_loop smallestNumber largestNumber numValsInRange"

text \<open>
  The same loop, keeping the pair \<open>(start, end)\<close> of each iteration instead of its label:
  the bounds of the ranges that the labels print.
\<close>

function bounds_loop :: "int \<Rightarrow> int \<Rightarrow> int \<Rightarrow> (int \<times> int) list option" where
  "bounds_loop i largestNumber numValsInRange =
     (if i \<le> largestNumber then
        (if numValsInRange \<le> 0 then None
         else
           (let start = i;
                end' = min (i + numValsInRange - 1) largestNumber
            in map_option ((#) (start, end'))
                 (bounds_loop (i + numValsInRange) largestNumber numValsInRange)))
      else Some [])"
  by pat_completeness auto
termination
  by (relation "measure (\<lambda>(i, largestNumber, numValsInRange). nat (largestNumber - i + 1))") auto

declare bounds_loop.simps [simp del]

subsection \<open>NumberSelector\<close>

text \<open>
  \<^verbatim>\<open>[...Array(largestNumber - smallestNumber + 1).keys()].map((i) => i + smallestNumber)\<close>
\<close>

definition NumberSelector_options :: "int \<Rightarrow> int \<Rightarrow> error + int list" where
  "NumberSelector_options smallestNumber largestNumber =
     (case array_keys (largestNumber - smallestNumber + 1) of
        Inl e \<Rightarrow> Inl e
      | Inr ks \<Rightarrow> Inr (map (\<lambda>i. i + smallestNumber) ks))"

text \<open>The selector of \<open>k\<close> in \<open>Topk\<close>: \<open>smallestNumber={1}\<close>, \<open>largestNumber={20}\<close>.\<close>

definition k_selector_options :: "error + int list" where
  "k_selector_options = NumberSelector_options 1 20"

section \<open>Tensors\<close>

text \<open>
  A tensor of the library is its shape and its entries by index; entries outside the shape
  are never read. \<open>arraySync\<close> turns a rank-2 tensor into the nested array of its rows.
\<close>

record 'a Tensor2D =
  shape2 :: "nat \<times> nat"
  at2 :: "nat \<Rightarrow> nat \<Rightarrow> 'a"

record 'a Tensor3D =
  shape3 :: "nat \<times> nat \<times> nat"
  at3 :: "nat \<Rightarrow> nat \<Rightarrow> nat \<Rightarrow> 'a"

definition row2 :: "'a Tensor2D \<Rightarrow> nat \<Rightarrow> 'a list" where
  "row2 x i = map (at2 x i) [0..<snd (shape2 x)]"

definition arraySync :: "'a Tensor2D \<Rightarrow> 'a list list" where
  "arraySync x = map (row2 x) [0..<fst (shape2 x)]"

text \<open>
  Modelled from the spec: the tensor library is a third party's and not part of the
  repository; its primitives are modelled from the specification's words for them (slice
  out, drop an axis, transpose, negate, reverse) and from the way the source calls them.

  \<open>tensor\<close> of a rectangular nested array \<open>[tokens x layers x neurons]\<close>: the shape is
  read off the first elements and the entries are those of the nested array. The
  properties' documentation requires the array to be rectangular; what the library does
  with a ragged one is not modelled.
\<close>

definition tensor3 :: "'a list list list \<Rightarrow> 'a Tensor3D" where
  "tensor3 xs =
     \<lparr> shape3 =
         (length xs,
          (case xs of [] \<Rightarrow> 0 | x # _ \<Rightarrow> length x),
          (case xs of [] \<Rightarrow> 0 | x # _ \<Rightarrow> (case x of [] \<Rightarrow> 0 | y # _ \<Rightarrow> length y))),
       at3 = (\<lambda>t l n. xs ! t ! l ! n) \<rparr>"

text \<open>
  \<open>slice(begin, size)\<close>: a size of \<open>-1\<close> stands for all the rest of the axis; any other
  negative size, and a slice that does not fit the axis, are refused by the library.
\<close>

definition slice_size :: "nat \<Rightarrow> nat \<Rightarrow> int \<Rightarrow> error + nat" where
  "slice_size d begin size' =
     (if 0 \<le> size' then
        (if int begin + size' \<le> int d then Inr (nat size') else Inl TfError)
      else if size' = - 1 \<and> begin \<le> d then Inr (d - begin)
      else Inl TfError)"

definition slice3 ::
  "'a Tensor3D \<Rightarrow> nat \<times> nat \<times> nat \<Rightarrow> int \<times> int \<times> int \<Rightarrow> error + 'a Tensor3D" where
  "slice3 x begin size' =
     (case (shape3 x, begin, size') of
        ((d0, d1, d2), (b0, b1, b2), (s0, s1, s2)) \<Rightarrow>
          (case (slice_size d0 b0 s0, slice_size d1 b1 s1, slice_size d2 b2 s2) of
             (Inr n0, Inr n1, Inr n2) \<Rightarrow>
               Inr \<lparr> shape3 = (n0, n1, n2),
                     at3 = (\<lambda>i j k. at3 x (b0 + i) (b1 + j) (b2 + k)) \<rparr>
           | _ \<Rightarrow> Inl TfError))"

text \<open>\<open>squeeze([1])\<close>: drops the middle axis, which must have size 1.\<close>

definition squeeze1 :: "'a Tensor3D \<Rightarrow> error + 'a Tensor2D" where
  "squeeze1 x =
     (case shape3 x of
        (d0, d1, d2) \<Rightarrow>
          if d1 = 1 then Inr \<lparr> shape2 = (d0, d2), at2 = (\<lambda>i j. at3 x i 0 j) \<rparr>
          else Inl TfError)"

definition transpose2 :: "'a Tensor2D \<Rightarrow> 'a Tensor2D" where
  "transpose2 x =
     \<lparr> shape2 = (snd (shape2 x), fst (shape2 x)), at2 = (\<lambda>i j. at2 x j i) \<rparr>"

text \<open>\<open>x.mul(c)\<close> multiplies every entry by the scalar \<open>c\<close>.\<close>

definition mul :: "real Tensor2D \<Rightarrow> real \<Rightarrow> real Tensor2D" where
  "mul x c = \<lparr> shape2 = shape2 x, at2 = (\<lambda>i j. at2 x i j * c) \<rparr>"

text \<open>\<open>reverse(x, -1)\<close> reverses every row (the last axis).\<close>

definition reverse_last :: "'a Tensor2D \<Rightarrow> 'a Tensor2D" where
  "reverse_last x =
     \<lparr> shape2 = shape2 x, at2 = (\<lambda>i j. at2 x i (snd (shape2 x) - 1 - j)) \<rparr>"

section \<open>getSelectedActivations\<close>

text \<open>
  \<^verbatim>\<open>activations.slice([0, layerNumber, neuronStartNumber],
       [-1, 1, neuronEndNumber - neuronStartNumber + 1]).squeeze([1]).transpose()\<close>
\<close>

definition getSelectedActivations ::
  "'a Tensor3D \<Rightarrow> nat \<Rightarrow> nat \<Rightarrow> nat \<Rightarrow> error + 'a Tensor2D" where
  "getSelectedActivations activations layerNumber neuronStartNumber neuronEndNumber =
     (case slice3 activations (0, layerNumber, neuronStartNumber)
             (- 1, 1, int neuronEndNumber - int neuronStartNumber + 1) of
        Inl e \<Rightarrow> Inl e
      | Inr sliced \<Rightarrow>
          (case squeeze1 sliced of
             Inl e \<Rightarrow> Inl e
           | Inr squeezed \<Rightarrow> Inr (transpose2 squeezed)))"

section \<open>The top-k primitive\<close>

text \<open>
  Modelled from the spec: the library's \<open>topk\<close> is not part of the repository. It is a
  parameter of the model: a function that, given one row (the last axis) and \<open>k\<close>,
  returns the selected values and their indices, or nothing where the library refuses.
  \<open>tfTopk\<close> applies it to every row of a rank-2 tensor; the result tensors have the shape
  \<open>[rows, k]\<close>, and a row of results that does not hold \<open>k\<close> values and \<open>k\<close> indices
  counts as a refusal. The source always asks for sorted results.

  \<open>topk_contract\<close> is what the specification says of the primitive (section 4.2 and the
  glossary): for \<open>1 \<le> k \<le>\<close> the length of the row it returns the \<open>k\<close> largest values,
  sorted descending, with their source indices. Nothing is said for other \<open>k\<close>, and
  nothing about the order among equal values.
\<close>

type_synonym topk_prim = "real list \<Rightarrow> nat \<Rightarrow> (real list \<times> nat list) option"

definition topk_contract :: "topk_prim \<Rightarrow> bool" where
  "topk_contract prim =
     (\<forall>xs k. 1 \<le> k \<and> k \<le> length xs \<longrightarrow>
        (\<exists>vs is. prim xs k = Some (vs, is) \<and>
           vs = take k (rev (sort xs)) \<and>
           length is = k \<and> distinct is \<and>
           (\<forall>j<k. is ! j < length xs \<and> xs ! (is ! j) = vs ! j)))"

definition tfTopk ::
  "topk_prim \<Rightarrow> real Tensor2D \<Rightarrow> nat \<Rightarrow> error + (real Tensor2D \<times> nat Tensor2D)" where
  "tfTopk prim x k =
     (let rows = map (\<lambda>i. prim (row2 x i) k) [0..<fst (shape2 x)] in
      if list_all
           (\<lambda>r. case r of None \<Rightarrow> False
                 | Some (vs, is) \<Rightarrow> length vs = k \<and> length is = k) rows
      then Inr (\<lparr> shape2 = (fst (shape2 x), k),
                   at2 = (\<lambda>i j. fst (the (rows ! i)) ! j) \<rparr>,
                \<lparr> shape2 = (fst (shape2 x), k),
                   at2 = (\<lambda>i j. snd (the (rows ! i)) ! j) \<rparr>)
      else Inl TfError)"

text \<open>
  A primitive that meets the contract: sort the pairs of value and index by descending
  value, stably, and keep the first \<open>k\<close>. It shows that the contract can be met, and
  the theorems below are evaluated at it.
\<close>

definition topk_sorted :: topk_prim where
  "topk_sorted xs k =
     (if k \<le> length xs then
        (let ps = take k (sort_key (\<lambda>p. - fst p) (zip xs [0..<length xs]))
         in Some (map fst ps, map snd ps))
      else None)"

section \<open>The Topk component\<close>

text \<open>
  The tables that \<open>Topk\<close> hands to \<open>TopBottomKTable\<close>, each \<open>[rank x neuron]\<close>. A
  token cell that was read outside the token list is \<open>undefined\<close>.
\<close>

record TopkTables =
  topkVals :: "real list list"
  topkIdxs :: "nat list list"
  topkTokens :: "string option list list"
  bottomkVals :: "real list list"
  bottomkIdxs :: "nat list list"
  bottomkTokens :: "string option list list"

text \<open>
  \<^verbatim>\<open>idxs.map((outerArr) => outerArr.map((token_idx) => currentTokens[token_idx]))\<close>
\<close>

definition tokensAt :: "string list \<Rightarrow> nat list list \<Rightarrow> string option list list" where
  "tokensAt currentTokens idxs =
     map (\<lambda>outerArr. map (\<lambda>token_idx. js_index currentTokens token_idx) outerArr) idxs"

text \<open>
  Lines 293 to 326 of \<open>Topk\<close>: from the current activations \<open>[neurons x tokens]\<close>, the
  current tokens and \<open>k\<close> to the tables. \<open>currentTokens\<close> is \<open>tokens[sampleNumber]\<close>,
  which is \<open>undefined\<close> when the sample has no token list; mapping over it is then a
  \<open>TypeError\<close> of the runtime, raised after the calls of the tensor library. The length
  of the longest token (lines 329 to 331) only sets the width of the columns and is not
  part of the tables.
\<close>

definition topkBottomk ::
  "topk_prim \<Rightarrow> string list option \<Rightarrow> real Tensor2D \<Rightarrow> nat \<Rightarrow> error + TopkTables" where
  "topkBottomk prim currentTokens currentActivations k =
     (case tfTopk prim currentActivations k of
        Inl e \<Rightarrow> Inl e
      | Inr (topkValsRaw, topkIdxsRaw) \<Rightarrow>
          (case tfTopk prim (mul currentActivations (- 1)) k of
             Inl e \<Rightarrow> Inl e
           | Inr (bottomkValsRaw, bottomkIdxsRaw) \<Rightarrow>
               (case currentTokens of
                  None \<Rightarrow> Inl TypeError
                | Some toks \<Rightarrow>
                    (let tVals = arraySync (transpose2 topkValsRaw);
                         tIdxs = arraySync (transpose2 topkIdxsRaw);
                         bVals = arraySync (transpose2 (reverse_last (mul bottomkValsRaw (- 1))));
                         bIdxs = arraySync (transpose2 (reverse_last bottomkIdxsRaw))
                     in Inr \<lparr> topkVals = tVals, topkIdxs = tIdxs,
                              topkTokens = tokensAt toks tIdxs,
                              bottomkVals = bVals, bottomkIdxs = bIdxs,
                              bottomkTokens = tokensAt toks bIdxs \<rparr>))))"

text \<open>
  The selection state of the component (its \<open>useState\<close> variables). The state variable
  \<open>k\<close> is the field \<open>kValue\<close>.
\<close>

record TopkState =
  sampleNumber :: nat
  layerNumber :: nat
  colsToShow :: nat
  kValue :: nat
  neuronNumbers :: "nat list"

text \<open>\<^verbatim>\<open>numberOfSamples > 1 ? [...Array(colsToShow).keys()] : [0]\<close>\<close>

definition firstNeurons :: "nat \<Rightarrow> nat \<Rightarrow> nat list" where
  "firstNeurons numberOfSamples cols = (if numberOfSamples > 1 then [0..<cols] else [0])"

definition initialState :: "nat \<Rightarrow> TopkState" where
  "initialState numberOfSamples =
     \<lparr> sampleNumber = 0, layerNumber = 0, colsToShow = 5, kValue = 5,
       neuronNumbers = firstNeurons numberOfSamples 5 \<rparr>"

text \<open>
  \<open>setColsToShow(c)\<close> followed by the effect that depends on \<open>colsToShow\<close>: setting
  the value it already has changes nothing and runs no effect.
\<close>

definition setColsToShow :: "nat \<Rightarrow> nat \<Rightarrow> TopkState \<Rightarrow> TopkState" where
  "setColsToShow numberOfSamples c st =
     (if c = colsToShow st then st
      else st\<lparr> colsToShow := c, neuronNumbers := firstNeurons numberOfSamples c \<rparr>)"

text \<open>
  One rendering of \<open>Topk\<close>, from the properties and the state to the tables. Reading
  \<open>activationsTensors[0].shape\<close> with no sample, and slicing
  \<open>activationsTensors[sampleNumber]\<close> with no such sample, are \<open>TypeError\<close>s; with no
  neuron number the slice gets \<open>undefined\<close> bounds, which the library refuses.
\<close>

definition Topk ::
  "topk_prim \<Rightarrow> string list list \<Rightarrow> real list list list list \<Rightarrow> TopkState
     \<Rightarrow> error + TopkTables" where
  "Topk prim tokens activations st =
     (let activationsTensors = map tensor3 activations in
      case activationsTensors of
        [] \<Rightarrow> Inl TypeError
      | _ # _ \<Rightarrow>
          (let currentTokens = js_index tokens (sampleNumber st) in
           case js_index activationsTensors (sampleNumber st) of
             None \<Rightarrow> Inl TypeError
           | Some sampleTensor \<Rightarrow>
               (case neuronNumbers st of
                  [] \<Rightarrow> Inl TfError
                | n # ns \<Rightarrow>
                    (case getSelectedActivations sampleTensor (layerNumber st)
                            n (last (n # ns)) of
                       Inl e \<Rightarrow> Inl e
                     | Inr currentActivations \<Rightarrow>
                         topkBottomk prim currentTokens currentActivations (kValue st)))))"

text \<open>
  Column \<open>n\<close> of a table \<open>[rank x neuron]\<close>: what the table shows for one neuron, from
  the first rank to the last.
\<close>

definition column :: "'a list list \<Rightarrow> nat \<Rightarrow> 'a list" where
  "column table n = map (\<lambda>cells. cells ! n) table"

section \<open>Example inputs\<close>

text \<open>Small inputs at which the theorems below are evaluated.\<close>

definition example_activations :: "real Tensor2D" where
  "example_activations = \<lparr> shape2 = (2, 3), at2 = (\<lambda>n t. [[1, 3, 2], [5, 2, 9]] ! n ! t) \<rparr>"

definition example_tokens :: "string list" where
  "example_tokens = [''a'', ''b'', ''c'']"

definition example_props_activations :: "real list list list list" where
  "example_props_activations =
     [[[[1, 5], [0, 0]], [[3, 2], [0, 0]], [[2, 9], [0, 0]]], [[[7, 7], [1, 1]]]]"

definition example_props_tokens :: "string list list" where
  "example_props_tokens = [[''a'', ''b'', ''c''], [''x'']]"

definition example_state :: TopkState where
  "example_state =
     \<lparr> sampleNumber = 0, layerNumber = 0, colsToShow = 2, kValue = 2, neuronNumbers = [0, 1] \<rparr>"

definition example_tables :: TopkTables where
  "example_tables =
     \<lparr> topkVals = [[3, 9], [2, 5]], topkIdxs = [[1, 2], [2, 0]],
       topkTokens = [[Some ''b'', Some ''c''], [Some ''c'', Some ''a'']],
       bottomkVals = [[2, 5], [1, 2]], bottomkIdxs = [[2, 0], [0, 1]],
       bottomkTokens = [[Some ''c'', Some ''a''], [Some ''a'', Some ''b'']] \<rparr>"

definition example_short_tokens :: "string list" where
  "example_short_tokens = [''a'']"

definition example_short_tables :: TopkTables where
  "example_short_tables =
     \<lparr> topkVals = [[3, 9], [2, 5]], topkIdxs = [[1, 2], [2, 0]],
       topkTokens = [[None, None], [None, Some ''a'']],
       bottomkVals = [[2, 5], [1, 2]], bottomkIdxs = [[2, 0], [0, 1]],
       bottomkTokens = [[None, Some ''a''], [Some ''a'', None]] \<rparr>"

definition example_wide_activations :: "real Tensor2D" where
  "example_wide_activations = \<lparr> shape2 = (1, 25), at2 = (\<lambda>n t. real t) \<rparr>"

definition example_sample :: "real list list list" where
  "example_sample = [[[1, 5], [0, 0]], [[3, 2], [0, 0]], [[2, 9], [0, 0]]]"

section \<open>Sorting, negation and a primitive that meets the contract\<close>

lemma sort_map_uminus: "sort (map uminus (xs::real list)) = rev (map uminus (sort xs))"
proof (rule properties_for_sort)
  show "mset (rev (map uminus (sort xs))) = mset (map uminus xs)"
    by simp
  have "sorted (sort xs)" by simp
  then show "sorted (rev (map uminus (sort xs)))"
    by (simp add: sorted_wrt_rev sorted_map sorted_wrt_map flip: rev_map)
qed

lemma rev_sort_map_uminus: "rev (sort (map uminus (xs::real list))) = map uminus (sort xs)"
  by (simp add: sort_map_uminus)

lemma map_uminus_inj: "map uminus xs = map uminus ys \<Longrightarrow> xs = (ys::real list)"
  by (simp add: inj_on_def inj_map_eq_map[unfolded inj_on_def, of uminus])

lemma sort_key_desc_vals:
  "map fst (sort_key (\<lambda>p. - fst p) (zs::(real \<times> nat) list)) = rev (sort (map fst zs))"
proof -
  let ?ps = "sort_key (\<lambda>p. - fst p) zs"
  have "sorted (map (\<lambda>p. - fst p) ?ps)" by (rule sorted_sort_key)
  then have s: "sorted (map uminus (map fst ?ps))" by (simp add: comp_def)
  have m: "mset (map uminus (map fst ?ps)) = mset (map uminus (map fst zs))"
    by simp
  have "sort (map uminus (map fst zs)) = map uminus (map fst ?ps)"
    using m s by (rule properties_for_sort)
  also have "sort (map uminus (map fst zs)) = map uminus (rev (sort (map fst zs)))"
    by (simp only: sort_map_uminus rev_map)
  finally have "map uminus (map fst ?ps) = map uminus (rev (sort (map fst zs)))"
    by (rule sym)
  then show ?thesis by (rule map_uminus_inj)
qed


lemma topk_sorted_contract: "topk_contract topk_sorted"
  unfolding topk_contract_def
proof (intro allI impI)
  fix xs :: "real list" and k
  assume k: "1 \<le> k \<and> k \<le> length xs"
  let ?zs = "zip xs [0..<length xs]"
  let ?ps = "sort_key (\<lambda>p. - fst p) ?zs"
  define qs where "qs = take k ?ps"
  have lt: "length qs = k"
    using k by (simp add: qs_def)
  have vals: "map fst qs = take k (rev (sort xs))"
    by (simp add: qs_def sort_key_desc_vals flip: take_map)
  have "mset (map snd ?ps) = mset (map snd ?zs)"
    by (simp only: mset_map mset_sort)
  then have "distinct (map snd ?ps) = distinct (map snd ?zs)"
    by (rule mset_eq_imp_distinct_iff)
  then have "distinct (map snd ?ps)"
    by simp
  then have dist: "distinct (map snd qs)"
    by (simp add: qs_def flip: take_map)
  have mem: "snd (qs ! j) < length xs \<and> xs ! snd (qs ! j) = fst (qs ! j)" if "j < k" for j
  proof -
    have "qs ! j \<in> set qs"
      using that lt by simp
    then have "qs ! j \<in> set ?zs"
      by (auto simp: qs_def dest: in_set_takeD)
    then show ?thesis
      by (auto simp: in_set_zip)
  qed
  have nth: "\<forall>j<k. map snd qs ! j < length xs \<and> xs ! (map snd qs ! j) = map fst qs ! j"
    using mem lt by simp
  have "topk_sorted xs k = Some (map fst qs, map snd qs)"
    using k by (simp add: topk_sorted_def Let_def qs_def)
  moreover have "length (map snd qs) = k"
    using lt by simp
  ultimately
  show "\<exists>vs is. topk_sorted xs k = Some (vs, is) \<and> vs = take k (rev (sort xs)) \<and>
          length is = k \<and> distinct is \<and> (\<forall>j<k. is ! j < length xs \<and> xs ! (is ! j) = vs ! j)"
    using vals dist nth by blast
qed


section \<open>Rows and columns of tensors and tables\<close>

lemma length_row2: "length (row2 x i) = snd (shape2 x)"
  by (simp add: row2_def)

lemma nth_row2: "j < snd (shape2 x) \<Longrightarrow> row2 x i ! j = at2 x i j"
  by (simp add: row2_def)

lemma map_nth_upt: "length xs = k \<Longrightarrow> map (\<lambda>j. xs ! j) [0..<k] = xs"
  by (auto simp: list_eq_iff_nth_eq)

section \<open>Top-k of a tensor under the contract\<close>

lemma topk_contractD:
  "topk_contract prim \<Longrightarrow> 1 \<le> k \<Longrightarrow> k \<le> length xs \<Longrightarrow>
   \<exists>vs is. prim xs k = Some (vs, is) \<and> vs = take k (rev (sort xs)) \<and>
     length is = k \<and> distinct is \<and> (\<forall>j<k. is ! j < length xs \<and> xs ! (is ! j) = vs ! j)"
  unfolding topk_contract_def by blast

lemma tfTopk_contract:
  assumes c: "topk_contract prim" and k: "1 \<le> k" "k \<le> snd (shape2 x)"
  shows "\<exists>v i. tfTopk prim x k = Inr (v, i) \<and>
           shape2 v = (fst (shape2 x), k) \<and> shape2 i = (fst (shape2 x), k) \<and>
           (\<forall>n<fst (shape2 x).
              row2 v n = take k (rev (sort (row2 x n))) \<and>
              distinct (row2 i n) \<and>
              (\<forall>j<k. at2 i n j < snd (shape2 x) \<and> at2 x n (at2 i n j) = at2 v n j))"
proof -
  define rows where "rows = map (\<lambda>i. prim (row2 x i) k) [0..<fst (shape2 x)]"
  define v where "v = \<lparr> shape2 = (fst (shape2 x), k), at2 = (\<lambda>i j. fst (the (rows ! i)) ! j) \<rparr>"
  define i where "i = \<lparr> shape2 = (fst (shape2 x), k), at2 = (\<lambda>i j. snd (the (rows ! i)) ! j) \<rparr>"
  have row: "\<exists>vs is. rows ! n = Some (vs, is) \<and> vs = take k (rev (sort (row2 x n))) \<and>
               length is = k \<and> distinct is \<and>
               (\<forall>j<k. is ! j < snd (shape2 x) \<and> row2 x n ! (is ! j) = vs ! j)"
    if "n < fst (shape2 x)" for n
    using topk_contractD[OF c k(1), of "row2 x n"] k(2) that
    by (simp add: rows_def length_row2)
  have ok: "list_all (\<lambda>r. case r of None \<Rightarrow> False
                 | Some (vs, is) \<Rightarrow> length vs = k \<and> length is = k) rows"
    unfolding list_all_length
  proof (intro allI impI)
    fix n assume "n < length rows"
    then have "n < fst (shape2 x)" by (simp add: rows_def)
    from row[OF this] k show "case rows ! n of None \<Rightarrow> False
                 | Some (vs, is) \<Rightarrow> length vs = k \<and> length is = k"
      by (auto simp: length_row2)
  qed
  have res: "tfTopk prim x k = Inr (v, i)"
    using ok by (simp add: tfTopk_def Let_def rows_def[symmetric] v_def i_def)
  have props: "row2 v n = take k (rev (sort (row2 x n))) \<and> distinct (row2 i n) \<and>
              (\<forall>j<k. at2 i n j < snd (shape2 x) \<and> at2 x n (at2 i n j) = at2 v n j)"
    if n: "n < fst (shape2 x)" for n
  proof -
    from row[OF n] obtain vs "is" where r: "rows ! n = Some (vs, is)"
      and vs: "vs = take k (rev (sort (row2 x n)))" and len: "length is = k"
      and d: "distinct is"
      and p: "\<forall>j<k. is ! j < snd (shape2 x) \<and> row2 x n ! (is ! j) = vs ! j"
      by blast
    have lvs: "length vs = k" using vs k by (simp add: length_row2)
    have "row2 v n = vs"
      using lvs by (simp add: row2_def v_def r map_nth_upt)
    moreover have "row2 i n = is"
      using len by (simp add: row2_def i_def r map_nth_upt)
    moreover have "\<forall>j<k. at2 i n j < snd (shape2 x) \<and> at2 x n (at2 i n j) = at2 v n j"
      using p by (auto simp: i_def v_def r nth_row2[symmetric])
    ultimately show ?thesis using vs d by simp
  qed
  have "shape2 v = (fst (shape2 x), k)" "shape2 i = (fst (shape2 x), k)"
    by (simp_all add: v_def i_def)
  with res props show ?thesis by blast
qed



section \<open>Transposed tables, negation and reversal\<close>

lemma length_arraySync_transpose2:
  "shape2 v = (N, k) \<Longrightarrow> length (arraySync (transpose2 v)) = k"
  by (simp add: arraySync_def transpose2_def)

lemma arraySync_transpose2_row:
  "shape2 v = (N, k) \<Longrightarrow> r < k \<Longrightarrow> arraySync (transpose2 v) ! r = map (\<lambda>n. at2 v n r) [0..<N]"
  by (simp add: arraySync_def transpose2_def row2_def)

lemma arraySync_transpose2_nth:
  "shape2 v = (N, k) \<Longrightarrow> r < k \<Longrightarrow> n < N \<Longrightarrow> arraySync (transpose2 v) ! r ! n = at2 v n r"
  by (simp add: arraySync_transpose2_row)

lemma column_arraySync_transpose2:
  "shape2 v = (N, k) \<Longrightarrow> n < N \<Longrightarrow> column (arraySync (transpose2 v)) n = row2 v n"
  by (simp add: column_def arraySync_def transpose2_def row2_def)

lemma shape2_reverse_last: "shape2 (reverse_last v) = shape2 v"
  by (simp add: reverse_last_def)

lemma shape2_mul: "shape2 (mul v c) = shape2 v"
  by (simp add: mul_def)

lemma row2_mul: "row2 (mul v c) n = map (\<lambda>a. a * c) (row2 v n)"
  by (simp add: mul_def row2_def)

lemma row2_reverse_last: "row2 (reverse_last v) n = rev (row2 v n)"
  by (auto simp: reverse_last_def row2_def list_eq_iff_nth_eq rev_nth)

lemma at2_reverse_last: "shape2 v = (N, k) \<Longrightarrow> at2 (reverse_last v) n r = at2 v n (k - 1 - r)"
  by (simp add: reverse_last_def)

lemma at2_mul: "at2 (mul v c) n r = at2 v n r * c"
  by (simp add: mul_def)

lemma take_k_largest_negated:
  "take k (rev (sort (map (\<lambda>a. a * (- 1)) (xs::real list)))) = map uminus (take k (sort xs))"
proof -
  have "map (\<lambda>a. a * (- 1)) xs = map uminus xs" by simp
  then show ?thesis
    by (simp only: rev_sort_map_uminus take_map)
qed

lemma sorted_wrt_k_largest: "sorted_wrt (\<ge>) (take k (rev (sort (xs::real list))))"
proof -
  have "sorted_wrt (\<ge>) (rev (sort xs))"
    using sorted_sort[of xs] by (simp add: sorted_wrt_rev)
  then show ?thesis by (rule sorted_wrt_take)
qed

lemma mset_k_largest: "mset (take k (rev (sort (xs::real list)))) \<subseteq># mset xs"
proof -
  have "mset (take k (rev (sort xs))) \<subseteq># mset (rev (sort xs))"
    by (metis append_take_drop_id mset_append mset_subset_eq_add_left)
  then show ?thesis by simp
qed

lemma tfTopk_succeeds:
  assumes "topk_contract prim" and "shape2 A = (N, T)" and "1 \<le> k" and "k \<le> T"
  shows "\<exists>tv ti. tfTopk prim A k = Inr (tv, ti)"
  using tfTopk_contract[OF assms(1,3), of A] assms(2,4) by auto

lemma tfTopk_props:
  assumes c: "topk_contract prim" and sh: "shape2 A = (N, T)" and k: "1 \<le> k" "k \<le> T"
    and run: "tfTopk prim A k = Inr (tv, ti)"
  shows "shape2 tv = (N, k)" and "shape2 ti = (N, k)"
    and "\<And>n. n < N \<Longrightarrow> row2 tv n = take k (rev (sort (row2 A n)))"
    and "\<And>n. n < N \<Longrightarrow> distinct (row2 ti n)"
    and "\<And>n j. n < N \<Longrightarrow> j < k \<Longrightarrow> at2 ti n j < T"
    and "\<And>n j. n < N \<Longrightarrow> j < k \<Longrightarrow> at2 A n (at2 ti n j) = at2 tv n j"
proof -
  from tfTopk_contract[OF c k(1), of A] k(2) sh
  obtain v i where t: "tfTopk prim A k = Inr (v, i)"
    "shape2 v = (N, k)" "shape2 i = (N, k)"
    and tp: "\<forall>n<N. row2 v n = take k (rev (sort (row2 A n))) \<and> distinct (row2 i n) \<and>
              (\<forall>j<k. at2 i n j < T \<and> at2 A n (at2 i n j) = at2 v n j)"
    by auto
  from t(1) run have e: "v = tv" "i = ti" by simp_all
  show "shape2 tv = (N, k)" "shape2 ti = (N, k)"
    using t(2,3) e by simp_all
  show "row2 tv n = take k (rev (sort (row2 A n)))" if "n < N" for n
    using tp that unfolding e by blast
  show "distinct (row2 ti n)" if "n < N" for n
    using tp that unfolding e by blast
  show "at2 ti n j < T" if "n < N" "j < k" for n j
    using tp that unfolding e by blast
  show "at2 A n (at2 ti n j) = at2 tv n j" if "n < N" "j < k" for n j
    using tp that unfolding e by blast
qed

lemma topkBottomk_eq:
  assumes "tfTopk prim A k = Inr (tv, ti)" and "tfTopk prim (mul A (- 1)) k = Inr (bv, bi)"
  shows "topkBottomk prim (Some toks) A k =
       Inr \<lparr> topkVals = arraySync (transpose2 tv),
             topkIdxs = arraySync (transpose2 ti),
             topkTokens = tokensAt toks (arraySync (transpose2 ti)),
             bottomkVals = arraySync (transpose2 (reverse_last (mul bv (- 1)))),
             bottomkIdxs = arraySync (transpose2 (reverse_last bi)),
             bottomkTokens = tokensAt toks (arraySync (transpose2 (reverse_last bi))) \<rparr>"
  using assms by (simp add: topkBottomk_def Let_def)

lemma tfTopk_props_negated:
  assumes c: "topk_contract prim" and sh: "shape2 A = (N, T)" and k: "1 \<le> k" "k \<le> T"
    and run: "tfTopk prim (mul A (- 1)) k = Inr (bv, bi)"
  shows "shape2 bv = (N, k)" and "shape2 bi = (N, k)"
    and "\<And>n. n < N \<Longrightarrow> row2 bv n = map uminus (take k (sort (row2 A n)))"
    and "\<And>n. n < N \<Longrightarrow> distinct (row2 bi n)"
    and "\<And>n j. n < N \<Longrightarrow> j < k \<Longrightarrow> at2 bi n j < T"
    and "\<And>n j. n < N \<Longrightarrow> j < k \<Longrightarrow> at2 A n (at2 bi n j) = - at2 bv n j"
proof -
  have shm: "shape2 (mul A (- 1)) = (N, T)"
    using sh by (simp add: shape2_mul)
  note p = tfTopk_props[OF c shm k run]
  show "shape2 bv = (N, k)" "shape2 bi = (N, k)"
    by (rule p)+
  show "row2 bv n = map uminus (take k (sort (row2 A n)))" if "n < N" for n
    using p(3)[OF that] by (simp only: row2_mul take_k_largest_negated)
  show "distinct (row2 bi n)" if "n < N" for n
    by (rule p(4)[OF that])
  show "at2 bi n j < T" if "n < N" "j < k" for n j
    by (rule p(5)[OF that])
  show "at2 A n (at2 bi n j) = - at2 bv n j" if "n < N" "j < k" for n j
    using p(6)[OF that] by (simp add: at2_mul)
qed

lemma map_negate_twice: "map (\<lambda>v. v * (- 1)) (map uminus (xs::real list)) = xs"
  by (simp add: comp_def)

lemma sorted_k_smallest: "sorted (take k (sort (xs::real list)))"
  by (rule sorted_wrt_take) simp

lemma sorted_wrt_rev_k_smallest: "sorted_wrt (\<ge>) (rev (take k (sort (xs::real list))))"
  using sorted_k_smallest[of k xs] by (simp add: sorted_wrt_rev)

lemma length_arraySync_transpose2_row:
  "shape2 v = (N, k) \<Longrightarrow> r < k \<Longrightarrow> length (arraySync (transpose2 v) ! r) = N"
  by (simp add: arraySync_transpose2_row)

lemma length_tokensAt: "length (tokensAt toks idxs) = length idxs"
  by (simp add: tokensAt_def)

lemma length_tokensAt_row: "r < length idxs \<Longrightarrow> length (tokensAt toks idxs ! r) = length (idxs ! r)"
  by (simp add: tokensAt_def)

lemma tokensAt_nth:
  "r < length idxs \<Longrightarrow> n < length (idxs ! r) \<Longrightarrow>
   tokensAt toks idxs ! r ! n = js_index toks (idxs ! r ! n)"
  by (simp add: tokensAt_def)

section \<open>What a rendering that returns tables went through\<close>

lemma topkBottomk_InrD:
  "topkBottomk prim ct A k = Inr d \<Longrightarrow>
   \<exists>toks. ct = Some toks \<and> topkTokens d = tokensAt toks (topkIdxs d) \<and>
     bottomkTokens d = tokensAt toks (bottomkIdxs d)"
  by (auto simp: topkBottomk_def Let_def split: sum.splits option.splits prod.splits)

lemma Topk_InrD:
  "Topk prim tokens activations st = Inr d \<Longrightarrow>
   \<exists>A. topkBottomk prim (js_index tokens (sampleNumber st)) A (kValue st) = Inr d"
  by (auto simp: Topk_def Let_def split: list.splits option.splits sum.splits)

section \<open>The options of NumberSelector\<close>

lemma NumberSelector_options_upto:
  assumes "smallestNumber \<le> largestNumber"
  shows "NumberSelector_options smallestNumber largestNumber = Inr [smallestNumber..largestNumber]"
proof -
  have "map (\<lambda>i. i + smallestNumber) (map int [0..<nat (largestNumber - smallestNumber + 1)])
          = [smallestNumber..largestNumber]"
    by (rule nth_equalityI) (auto simp: add.commute)
  then show ?thesis
    using assms by (simp add: NumberSelector_options_def array_keys_def)
qed

section \<open>The loop of RangeSelector\<close>

lemma ranges_loop_bounds:
  "ranges_loop i l n = map_option (map (\<lambda>(s, e). rangeLabel s e)) (bounds_loop i l n)"
proof (induction i l n rule: bounds_loop.induct)
  case (1 i l n)
  show ?case
  proof (cases "i \<le> l \<and> 0 < n")
    case True
    with 1 show ?thesis
      by (subst ranges_loop.simps, subst bounds_loop.simps)
         (simp add: Let_def option.map_comp comp_def)
  next
    case False
    then show ?thesis
      by (subst ranges_loop.simps, subst bounds_loop.simps) auto
  qed
qed

lemma bounds_loop_total: "1 \<le> n \<Longrightarrow> \<exists>bs. bounds_loop i l n = Some bs"
proof (induction i l n rule: bounds_loop.induct)
  case (1 i l n)
  show ?case
  proof (cases "i \<le> l")
    case True
    with 1 show ?thesis
      by (subst bounds_loop.simps) (auto simp: Let_def)
  next
    case False
    then show ?thesis
      by (subst bounds_loop.simps) simp
  qed
qed

lemma bounds_loop_step:
  assumes "i \<le> l" and "1 \<le> n" and "bounds_loop i l n = Some bs"
  shows "\<exists>bs'. bounds_loop (i + n) l n = Some bs' \<and> bs = (i, min (i + n - 1) l) # bs'"
  using assms by (subst (asm) bounds_loop.simps) (auto simp: Let_def)

lemma bounds_loop_done: "\<not> i \<le> l \<Longrightarrow> bounds_loop i l n = Some []"
  by (subst bounds_loop.simps) simp

lemma bounds_loop_concat:
  "1 \<le> n \<Longrightarrow> bounds_loop i l n = Some bs \<Longrightarrow> concat (map (\<lambda>(s, e). [s..e]) bs) = [i..l]"
proof (induction i l n arbitrary: bs rule: bounds_loop.induct)
  case (1 i l n)
  show ?case
  proof (cases "i \<le> l")
    case True
    from bounds_loop_step[OF True 1(2,3)] obtain bs' where
      r: "bounds_loop (i + n) l n = Some bs'" and bs: "bs = (i, min (i + n - 1) l) # bs'"
      by blast
    have n: "\<not> n \<le> 0" using 1(2) by simp
    have ih: "concat (map (\<lambda>(s, e). [s..e]) bs') = [i + n..l]"
      using 1(1)[OF True n refl refl 1(2) r] .
    show ?thesis
    proof (cases "i + n - 1 \<le> l")
      case le: True
      have "[i..l] = [i..i + n - 1] @ [i + n - 1 + 1..l]"
        using 1(2) le by (intro upto_split2) simp_all
      then show ?thesis
        using le by (simp add: bs ih min_def)
    next
      case False
      then show ?thesis
        by (simp add: bs ih min_def)
    qed
  next
    case False
    with 1(3) show ?thesis
      by (simp add: bounds_loop_done)
  qed
qed

lemma bounds_loop_sizes:
  "1 \<le> n \<Longrightarrow> bounds_loop i l n = Some bs \<Longrightarrow>
   \<forall>(s, e)\<in>set bs. s \<le> e \<and> e - s + 1 \<le> n"
proof (induction i l n arbitrary: bs rule: bounds_loop.induct)
  case (1 i l n)
  show ?case
  proof (cases "i \<le> l")
    case True
    from bounds_loop_step[OF True 1(2,3)] obtain bs' where
      r: "bounds_loop (i + n) l n = Some bs'" and bs: "bs = (i, min (i + n - 1) l) # bs'"
      by blast
    have n: "\<not> n \<le> 0" using 1(2) by simp
    have ih: "\<forall>(s, e)\<in>set bs'. s \<le> e \<and> e - s + 1 \<le> n"
      using 1(1)[OF True n refl refl 1(2) r] .
    show ?thesis
      using True 1(2) ih by (auto simp: bs min_def)
  next
    case False
    with 1(3) show ?thesis
      by (simp add: bounds_loop_done)
  qed
qed

lemma bounds_loop_full:
  "1 \<le> n \<Longrightarrow> bounds_loop i l n = Some bs \<Longrightarrow>
   \<forall>(s, e)\<in>set (butlast bs). e - s + 1 = n"
proof (induction i l n arbitrary: bs rule: bounds_loop.induct)
  case (1 i l n)
  show ?case
  proof (cases "i \<le> l")
    case True
    from bounds_loop_step[OF True 1(2,3)] obtain bs' where
      r: "bounds_loop (i + n) l n = Some bs'" and bs: "bs = (i, min (i + n - 1) l) # bs'"
      by blast
    have n: "\<not> n \<le> 0" using 1(2) by simp
    have ih: "\<forall>(s, e)\<in>set (butlast bs'). e - s + 1 = n"
      using 1(1)[OF True n refl refl 1(2) r] .
    show ?thesis
    proof (cases "bs' = []")
      case True
      then show ?thesis by (simp add: bs)
    next
      case False
      with r have "i + n \<le> l"
        using bounds_loop_done[of "i + n" l n] by fastforce
      then show ?thesis
        using False ih by (auto simp: bs min_def)
    qed
  next
    case False
    with 1(3) show ?thesis
      by (simp add: bounds_loop_done)
  qed
qed

section \<open>The examples, evaluated\<close>

lemma upt_2: "[0..<2] = [0, 1]" by (simp add: upt_rec)
lemma upt_3: "[0..<3] = [0, 1, 2]" by (simp add: upt_rec)

lemmas eval_defs = topkBottomk_def tfTopk_def topk_sorted_def
  row2_def arraySync_def transpose2_def reverse_last_def mul_def tokensAt_def js_index_def
  upt_2 upt_3 Let_def

lemma example_run:
  "topkBottomk topk_sorted (Some example_tokens) example_activations 2 = Inr example_tables"
  by (simp add: eval_defs example_activations_def example_tokens_def example_tables_def)

lemma example_Topk_run:
  "Topk topk_sorted example_props_tokens example_props_activations example_state = Inr example_tables"
  by (simp add: Topk_def getSelectedActivations_def slice3_def slice_size_def squeeze1_def tensor3_def
        eval_defs example_props_activations_def example_props_tokens_def example_state_def
        example_tables_def)

lemma example_short_run:
  "topkBottomk topk_sorted (Some example_short_tokens) example_activations 2 =
     Inr example_short_tables"
  by (simp add: eval_defs example_activations_def example_short_tokens_def example_short_tables_def)

lemma example_bounds: "bounds_loop 0 4 2 = Some [(0, 1), (2, 3), (4, 4)]"
  by code_simp

lemma example_ranges: "RangeSelector_ranges 0 4 2 = Some [''0-1'', ''2-3'', ''4'']"
  by code_simp

section \<open>Selection-to-slice mapping\<close>

text \<open>
  C3. For every rank-3 tensor \<open>A\<close> of shape \<open>[T x L x N]\<close> (tokens, layers, neurons), every
  layer \<open>l < L\<close> and every neuron range \<open>s \<le> e < N\<close>, \<open>getSelectedActivations\<close> returns a
  matrix of shape \<open>[(e - s + 1) x T]\<close> whose entry at \<open>[n][t]\<close> is \<open>A[t][l][s + n]\<close>.
\<close>

theorem getSelectedActivations_entries:
  assumes sh: "shape3 A = (T, L, N)" and l: "l < L" and se: "s \<le> e" and e: "e < N"
  shows "\<exists>M. getSelectedActivations A l s e = Inr M \<and>
           shape2 M = (e - s + 1, T) \<and>
           (\<forall>n<e - s + 1. \<forall>t<T. at2 M n t = at3 A t l (s + n)) \<and>
           arraySync M = map (\<lambda>n. map (\<lambda>t. at3 A t l (s + n)) [0..<T]) [0..<e - s + 1]"
proof -
  have sz: "int e - int s + 1 \<ge> 0" "int s + (int e - int s + 1) \<le> int N"
    "nat (int e - int s + 1) = e - s + 1"
    using se e by simp_all
  define S where "S = \<lparr> shape3 = (T, 1, e - s + 1),
                       at3 = (\<lambda>i j k. at3 A (0 + i) (l + j) (s + k)) \<rparr>"
  have sl: "slice3 A (0, l, s) (- 1, 1, int e - int s + 1) = Inr S"
    using sh l sz by (simp add: slice3_def slice_size_def S_def)
  define M where "M = transpose2 \<lparr> shape2 = (T, e - s + 1), at2 = (\<lambda>i j. at3 S i 0 j) \<rparr>"
  have sq: "squeeze1 S = Inr \<lparr> shape2 = (T, e - s + 1), at2 = (\<lambda>i j. at3 S i 0 j) \<rparr>"
    by (simp add: squeeze1_def S_def)
  have run: "getSelectedActivations A l s e = Inr M"
    by (simp add: getSelectedActivations_def sl sq M_def)
  have shM: "shape2 M = (e - s + 1, T)"
    by (simp add: M_def transpose2_def)
  have at: "at2 M n t = at3 A t l (s + n)" for n t
    by (simp add: M_def transpose2_def S_def)
  have arr: "arraySync M = map (\<lambda>n. map (\<lambda>t. at3 A t l (s + n)) [0..<T]) [0..<e - s + 1]"
    by (simp add: arraySync_def row2_def shM at)
  show ?thesis
    using run shM at arr by blast
qed

theorem getSelectedActivations_entries_witness:
  "shape3 (tensor3 example_sample) = (3, 2, 2) \<and> (0::nat) < 2 \<and> (0::nat) \<le> 1 \<and> (1::nat) < 2 \<and>
   (\<exists>M. getSelectedActivations (tensor3 example_sample) 0 0 1 = Inr M \<and>
          shape2 M = (1 - 0 + 1, 3) \<and>
          (\<forall>n<1 - 0 + 1. \<forall>t<3. at2 M n t = at3 (tensor3 example_sample) t 0 (0 + n)) \<and>
          arraySync M = map (\<lambda>n. map (\<lambda>t. at3 (tensor3 example_sample) t 0 (0 + n)) [0..<3]) [0..<1 - 0 + 1]) \<and>
   map (\<lambda>n. map (\<lambda>t. at3 (tensor3 example_sample) t 0 (0 + n)) [0..<3]) [0..<1 - 0 + 1]
     = [[1, 3, 2], [5, 2, 9]]"
proof -
  have h1: "shape3 (tensor3 example_sample) = (3, 2, 2)"
    by (simp add: tensor3_def example_sample_def)
  have h2: "(0::nat) < 2" and h3: "(0::nat) \<le> 1" and h4: "(1::nat) < 2"
    by simp_all
  have v: "map (\<lambda>n. map (\<lambda>t. at3 (tensor3 example_sample) t 0 (0 + n)) [0..<3]) [0..<1 - 0 + 1]
     = [[1, 3, 2], [5, 2, 9]]"
    by (simp add: tensor3_def example_sample_def upt_2 upt_3)
  show ?thesis
    by (intro conjI h1 h2 h3 h4 v getSelectedActivations_entries[OF h1 h2 h3 h4])
qed

section \<open>Top-k and bottom-k extraction\<close>

text \<open>
  C1. For every activation matrix \<open>A\<close> of shape \<open>[N x T]\<close> (neurons by tokens), every
  \<open>k\<close> with \<open>1 \<le> k \<le> T\<close> and every top-k primitive that meets its contract, the
  extraction returns tables, and for each neuron \<open>n\<close> the column \<open>n\<close> of \<open>topkVals\<close>
  is the list of the \<open>k\<close> largest values of row \<open>A[n]\<close> in descending order: it is
  non-increasing as the rank grows, its values are values of the row, the indices in
  column \<open>n\<close> of \<open>topkIdxs\<close> are distinct token positions, and each value is the
  activation at its index.
\<close>

theorem topk_columns_k_largest:
  assumes c: "topk_contract prim" and sh: "shape2 A = (N, T)" and k1: "1 \<le> k" and k2: "k \<le> T"
  shows "\<exists>d. topkBottomk prim (Some toks) A k = Inr d \<and>
           length (topkVals d) = k \<and> length (topkIdxs d) = k \<and>
           (\<forall>n<N. column (topkVals d) n = take k (rev (sort (row2 A n))) \<and>
                  sorted_wrt (\<ge>) (column (topkVals d) n) \<and>
                  mset (column (topkVals d) n) \<subseteq># mset (row2 A n) \<and>
                  distinct (column (topkIdxs d) n) \<and>
                  (\<forall>r<k. topkIdxs d ! r ! n < T \<and>
                         at2 A n (topkIdxs d ! r ! n) = topkVals d ! r ! n))"
proof -
  obtain tv ti where t: "tfTopk prim A k = Inr (tv, ti)"
    using tfTopk_succeeds[OF c sh k1 k2] by blast
  have shm: "shape2 (mul A (- 1)) = (N, T)"
    using sh by (simp add: shape2_mul)
  obtain bv bi where b: "tfTopk prim (mul A (- 1)) k = Inr (bv, bi)"
    using tfTopk_succeeds[OF c shm k1 k2] by blast
  note p = tfTopk_props[OF c sh k1 k2 t]
  define d where "d = \<lparr> topkVals = arraySync (transpose2 tv),
             topkIdxs = arraySync (transpose2 ti),
             topkTokens = tokensAt toks (arraySync (transpose2 ti)),
             bottomkVals = arraySync (transpose2 (reverse_last (mul bv (- 1)))),
             bottomkIdxs = arraySync (transpose2 (reverse_last bi)),
             bottomkTokens = tokensAt toks (arraySync (transpose2 (reverse_last bi))) \<rparr>"
  have run: "topkBottomk prim (Some toks) A k = Inr d"
    unfolding d_def by (rule topkBottomk_eq[OF t b])
  have fv: "topkVals d = arraySync (transpose2 tv)"
    and fi: "topkIdxs d = arraySync (transpose2 ti)"
    by (simp_all add: d_def)
  have len: "length (topkVals d) = k" "length (topkIdxs d) = k"
    unfolding fv fi using p(1,2) by (simp_all add: length_arraySync_transpose2)
  have col: "column (topkVals d) n = take k (rev (sort (row2 A n))) \<and>
             sorted_wrt (\<ge>) (column (topkVals d) n) \<and>
             mset (column (topkVals d) n) \<subseteq># mset (row2 A n) \<and>
             distinct (column (topkIdxs d) n) \<and>
             (\<forall>r<k. topkIdxs d ! r ! n < T \<and>
                    at2 A n (topkIdxs d ! r ! n) = topkVals d ! r ! n)" if n: "n < N" for n
  proof -
    have v: "column (topkVals d) n = take k (rev (sort (row2 A n)))"
      unfolding fv using p(1) n p(3)[OF n] by (simp add: column_arraySync_transpose2)
    have i: "column (topkIdxs d) n = row2 ti n"
      unfolding fi using p(2) n by (simp add: column_arraySync_transpose2)
    have q: "topkIdxs d ! r ! n < T \<and> at2 A n (topkIdxs d ! r ! n) = topkVals d ! r ! n"
      if r: "r < k" for r
      unfolding fv fi
      using p(5)[OF n r] p(6)[OF n r]
      by (simp add: arraySync_transpose2_nth[OF p(1) r n] arraySync_transpose2_nth[OF p(2) r n])
    show ?thesis
      unfolding v i using p(4)[OF n] q
      by (simp add: sorted_wrt_k_largest mset_k_largest)
  qed
  have cols: "\<forall>n<N. column (topkVals d) n = take k (rev (sort (row2 A n))) \<and>
             sorted_wrt (\<ge>) (column (topkVals d) n) \<and>
             mset (column (topkVals d) n) \<subseteq># mset (row2 A n) \<and>
             distinct (column (topkIdxs d) n) \<and>
             (\<forall>r<k. topkIdxs d ! r ! n < T \<and>
                    at2 A n (topkIdxs d ! r ! n) = topkVals d ! r ! n)"
    by (intro allI impI) (rule col)
  show ?thesis
    by (rule exI[of _ d]) (intro conjI run len cols)
qed

theorem topk_columns_k_largest_witness:
  "topk_contract topk_sorted \<and> shape2 example_activations = (2, 3) \<and> (1::nat) \<le> 2 \<and> (2::nat) \<le> 3 \<and>
   (\<exists>d. topkBottomk topk_sorted (Some example_tokens) example_activations 2 = Inr d \<and>
           length (topkVals d) = 2 \<and> length (topkIdxs d) = 2 \<and>
           (\<forall>n<2. column (topkVals d) n = take 2 (rev (sort (row2 example_activations n))) \<and>
                  sorted_wrt (\<ge>) (column (topkVals d) n) \<and>
                  mset (column (topkVals d) n) \<subseteq># mset (row2 example_activations n) \<and>
                  distinct (column (topkIdxs d) n) \<and>
                  (\<forall>r<2. topkIdxs d ! r ! n < 3 \<and>
                         at2 example_activations n (topkIdxs d ! r ! n) = topkVals d ! r ! n))) \<and>
   topkBottomk topk_sorted (Some example_tokens) example_activations 2 = Inr example_tables"
proof -
  have h1: "shape2 example_activations = (2, 3)"
    by (simp add: example_activations_def)
  have h2: "(1::nat) \<le> 2" and h3: "(2::nat) \<le> 3"
    by simp_all
  show ?thesis
    by (intro conjI topk_sorted_contract h1 h2 h3 example_run
          topk_columns_k_largest[OF topk_sorted_contract h1 h2 h3, of example_tokens])
qed

text \<open>
  C2. For every activation matrix \<open>A\<close> of shape \<open>[N x T]\<close>, every \<open>k\<close> with
  \<open>1 \<le> k \<le> T\<close> and every top-k primitive that meets its contract, the extraction returns
  tables, and for each neuron \<open>n\<close>: the column \<open>n\<close> of \<open>bottomkVals\<close> is the reverse of the
  negated row \<open>n\<close> of the values that top-k returns on the negated matrix; that row, with
  the negation undone, is the list of the \<open>k\<close> smallest values of row \<open>A[n]\<close> in
  non-decreasing order; so the displayed column is the \<open>k\<close> smallest values in
  non-increasing order, the smallest last.
\<close>

theorem bottomk_columns_k_smallest:
  assumes c: "topk_contract prim" and sh: "shape2 A = (N, T)" and k1: "1 \<le> k" and k2: "k \<le> T"
  shows "\<exists>d bv bi. topkBottomk prim (Some toks) A k = Inr d \<and>
           tfTopk prim (mul A (- 1)) k = Inr (bv, bi) \<and>
           length (bottomkVals d) = k \<and>
           (\<forall>n<N. column (bottomkVals d) n = rev (map (\<lambda>v. v * (- 1)) (row2 bv n)) \<and>
                  map (\<lambda>v. v * (- 1)) (row2 bv n) = take k (sort (row2 A n)) \<and>
                  sorted (map (\<lambda>v. v * (- 1)) (row2 bv n)) \<and>
                  column (bottomkVals d) n = rev (take k (sort (row2 A n))) \<and>
                  sorted_wrt (\<ge>) (column (bottomkVals d) n))"
proof -
  obtain tv ti where t: "tfTopk prim A k = Inr (tv, ti)"
    using tfTopk_succeeds[OF c sh k1 k2] by blast
  have shm: "shape2 (mul A (- 1)) = (N, T)"
    using sh by (simp add: shape2_mul)
  obtain bv bi where b: "tfTopk prim (mul A (- 1)) k = Inr (bv, bi)"
    using tfTopk_succeeds[OF c shm k1 k2] by blast
  note p = tfTopk_props_negated[OF c sh k1 k2 b]
  define d where "d = \<lparr> topkVals = arraySync (transpose2 tv),
             topkIdxs = arraySync (transpose2 ti),
             topkTokens = tokensAt toks (arraySync (transpose2 ti)),
             bottomkVals = arraySync (transpose2 (reverse_last (mul bv (- 1)))),
             bottomkIdxs = arraySync (transpose2 (reverse_last bi)),
             bottomkTokens = tokensAt toks (arraySync (transpose2 (reverse_last bi))) \<rparr>"
  have run: "topkBottomk prim (Some toks) A k = Inr d"
    unfolding d_def by (rule topkBottomk_eq[OF t b])
  have fv: "bottomkVals d = arraySync (transpose2 (reverse_last (mul bv (- 1))))"
    by (simp add: d_def)
  have shv: "shape2 (reverse_last (mul bv (- 1))) = (N, k)"
    using p(1) by (simp add: shape2_reverse_last shape2_mul)
  have len: "length (bottomkVals d) = k"
    unfolding fv by (rule length_arraySync_transpose2[OF shv])
  have col: "column (bottomkVals d) n = rev (map (\<lambda>v. v * (- 1)) (row2 bv n)) \<and>
                  map (\<lambda>v. v * (- 1)) (row2 bv n) = take k (sort (row2 A n)) \<and>
                  sorted (map (\<lambda>v. v * (- 1)) (row2 bv n)) \<and>
                  column (bottomkVals d) n = rev (take k (sort (row2 A n))) \<and>
                  sorted_wrt (\<ge>) (column (bottomkVals d) n)" if n: "n < N" for n
  proof -
    have c1: "column (bottomkVals d) n = rev (map (\<lambda>v. v * (- 1)) (row2 bv n))"
      unfolding fv
      by (simp only: column_arraySync_transpose2[OF shv n] row2_reverse_last row2_mul)
    have c2: "map (\<lambda>v. v * (- 1)) (row2 bv n) = take k (sort (row2 A n))"
      by (simp only: p(3)[OF n] map_negate_twice)
    show ?thesis
      unfolding c1 c2 by (simp add: sorted_k_smallest sorted_wrt_rev_k_smallest)
  qed
  have cols: "\<forall>n<N. column (bottomkVals d) n = rev (map (\<lambda>v. v * (- 1)) (row2 bv n)) \<and>
                  map (\<lambda>v. v * (- 1)) (row2 bv n) = take k (sort (row2 A n)) \<and>
                  sorted (map (\<lambda>v. v * (- 1)) (row2 bv n)) \<and>
                  column (bottomkVals d) n = rev (take k (sort (row2 A n))) \<and>
                  sorted_wrt (\<ge>) (column (bottomkVals d) n)"
    by (intro allI impI) (rule col)
  show ?thesis
    by (intro exI[of _ d] exI[of _ bv] exI[of _ bi] conjI run b len cols)
qed

theorem bottomk_columns_k_smallest_witness:
  "topk_contract topk_sorted \<and> shape2 example_activations = (2, 3) \<and>
   (1::nat) \<le> 2 \<and> (2::nat) \<le> 3 \<and>
   (\<exists>d bv bi. topkBottomk topk_sorted (Some example_tokens) example_activations 2 = Inr d \<and>
           tfTopk topk_sorted (mul example_activations (- 1)) 2 = Inr (bv, bi) \<and>
           length (bottomkVals d) = 2 \<and>
           (\<forall>n<2. column (bottomkVals d) n = rev (map (\<lambda>v. v * (- 1)) (row2 bv n)) \<and>
                  map (\<lambda>v. v * (- 1)) (row2 bv n) = take 2 (sort (row2 example_activations n)) \<and>
                  sorted (map (\<lambda>v. v * (- 1)) (row2 bv n)) \<and>
                  column (bottomkVals d) n = rev (take 2 (sort (row2 example_activations n))) \<and>
                  sorted_wrt (\<ge>) (column (bottomkVals d) n))) \<and>
   topkBottomk topk_sorted (Some example_tokens) example_activations 2 = Inr example_tables"
proof -
  have h1: "shape2 example_activations = (2, 3)"
    by (simp add: example_activations_def)
  have h2: "(1::nat) \<le> 2" and h3: "(2::nat) \<le> 3"
    by simp_all
  show ?thesis
    by (intro conjI topk_sorted_contract h1 h2 h3 example_run
          bottomk_columns_k_smallest[OF topk_sorted_contract h1 h2 h3, of example_tokens])
qed

text \<open>
  C9. For every activation matrix \<open>A\<close> of shape \<open>[N x T]\<close>, every \<open>k\<close> with
  \<open>1 \<le> k \<le> T\<close> and every top-k primitive that meets its contract, the bottom-k tables
  stay aligned: at every rank \<open>r\<close> and neuron \<open>n\<close> the index is a token position, the value
  is the activation \<open>A[n]\<close> at that index, and the token cell is the current token list
  read at that index.
\<close>

theorem bottomk_triples_aligned:
  assumes c: "topk_contract prim" and sh: "shape2 A = (N, T)" and k1: "1 \<le> k" and k2: "k \<le> T"
  shows "\<exists>d. topkBottomk prim (Some toks) A k = Inr d \<and>
           length (bottomkVals d) = k \<and> length (bottomkIdxs d) = k \<and>
           length (bottomkTokens d) = k \<and>
           (\<forall>r<k. \<forall>n<N.
              bottomkIdxs d ! r ! n < T \<and>
              bottomkVals d ! r ! n = at2 A n (bottomkIdxs d ! r ! n) \<and>
              bottomkTokens d ! r ! n = js_index toks (bottomkIdxs d ! r ! n))"
proof -
  obtain tv ti where t: "tfTopk prim A k = Inr (tv, ti)"
    using tfTopk_succeeds[OF c sh k1 k2] by blast
  have shm: "shape2 (mul A (- 1)) = (N, T)"
    using sh by (simp add: shape2_mul)
  obtain bv bi where b: "tfTopk prim (mul A (- 1)) k = Inr (bv, bi)"
    using tfTopk_succeeds[OF c shm k1 k2] by blast
  note p = tfTopk_props_negated[OF c sh k1 k2 b]
  define d where "d = \<lparr> topkVals = arraySync (transpose2 tv),
             topkIdxs = arraySync (transpose2 ti),
             topkTokens = tokensAt toks (arraySync (transpose2 ti)),
             bottomkVals = arraySync (transpose2 (reverse_last (mul bv (- 1)))),
             bottomkIdxs = arraySync (transpose2 (reverse_last bi)),
             bottomkTokens = tokensAt toks (arraySync (transpose2 (reverse_last bi))) \<rparr>"
  have run: "topkBottomk prim (Some toks) A k = Inr d"
    unfolding d_def by (rule topkBottomk_eq[OF t b])
  have fv: "bottomkVals d = arraySync (transpose2 (reverse_last (mul bv (- 1))))"
    and fi: "bottomkIdxs d = arraySync (transpose2 (reverse_last bi))"
    and ft: "bottomkTokens d = tokensAt toks (arraySync (transpose2 (reverse_last bi)))"
    by (simp_all add: d_def)
  have shv: "shape2 (reverse_last (mul bv (- 1))) = (N, k)"
    using p(1) by (simp add: shape2_reverse_last shape2_mul)
  have shi: "shape2 (reverse_last bi) = (N, k)"
    using p(2) by (simp add: shape2_reverse_last)
  have lv: "length (bottomkVals d) = k"
    unfolding fv by (rule length_arraySync_transpose2[OF shv])
  have li: "length (bottomkIdxs d) = k"
    unfolding fi by (rule length_arraySync_transpose2[OF shi])
  have lt: "length (bottomkTokens d) = k"
    unfolding ft length_tokensAt by (rule length_arraySync_transpose2[OF shi])
  have cell: "bottomkIdxs d ! r ! n < T \<and>
              bottomkVals d ! r ! n = at2 A n (bottomkIdxs d ! r ! n) \<and>
              bottomkTokens d ! r ! n = js_index toks (bottomkIdxs d ! r ! n)"
    if r: "r < k" and n: "n < N" for r n
  proof -
    have j: "k - 1 - r < k" using r by simp
    have i: "bottomkIdxs d ! r ! n = at2 bi n (k - 1 - r)"
      unfolding fi
      by (simp only: arraySync_transpose2_nth[OF shi r n] at2_reverse_last[OF p(2)])
    have v: "bottomkVals d ! r ! n = at2 bv n (k - 1 - r) * (- 1)"
      unfolding fv
      by (simp only: arraySync_transpose2_nth[OF shv r n]
            at2_reverse_last[OF p(1)[folded shape2_mul[of bv "- 1"]]] at2_mul)
    have rl: "r < length (arraySync (transpose2 (reverse_last bi)))"
      using r by (simp only: length_arraySync_transpose2[OF shi])
    have nl: "n < length (arraySync (transpose2 (reverse_last bi)) ! r)"
      using n by (simp only: length_arraySync_transpose2_row[OF shi r])
    have tk: "bottomkTokens d ! r ! n = js_index toks (bottomkIdxs d ! r ! n)"
      unfolding ft fi by (rule tokensAt_nth[OF rl nl])
    show ?thesis
      using p(5)[OF n j] p(6)[OF n j] tk by (simp add: i v)
  qed
  have cells: "\<forall>r<k. \<forall>n<N.
              bottomkIdxs d ! r ! n < T \<and>
              bottomkVals d ! r ! n = at2 A n (bottomkIdxs d ! r ! n) \<and>
              bottomkTokens d ! r ! n = js_index toks (bottomkIdxs d ! r ! n)"
    by (intro allI impI) (rule cell)
  show ?thesis
    by (intro exI[of _ d] conjI run lv li lt cells)
qed

theorem bottomk_triples_aligned_witness:
  "topk_contract topk_sorted \<and> shape2 example_activations = (2, 3) \<and>
   (1::nat) \<le> 2 \<and> (2::nat) \<le> 3 \<and>
   (\<exists>d. topkBottomk topk_sorted (Some example_tokens) example_activations 2 = Inr d \<and>
           length (bottomkVals d) = 2 \<and> length (bottomkIdxs d) = 2 \<and>
           length (bottomkTokens d) = 2 \<and>
           (\<forall>r<2. \<forall>n<2.
              bottomkIdxs d ! r ! n < 3 \<and>
              bottomkVals d ! r ! n = at2 example_activations n (bottomkIdxs d ! r ! n) \<and>
              bottomkTokens d ! r ! n = js_index example_tokens (bottomkIdxs d ! r ! n))) \<and>
   topkBottomk topk_sorted (Some example_tokens) example_activations 2 = Inr example_tables"
proof -
  have h1: "shape2 example_activations = (2, 3)"
    by (simp add: example_activations_def)
  have h2: "(1::nat) \<le> 2" and h3: "(2::nat) \<le> 3"
    by simp_all
  show ?thesis
    by (intro conjI topk_sorted_contract h1 h2 h3 example_run
          bottomk_triples_aligned[OF topk_sorted_contract h1 h2 h3, of example_tokens])
qed

section \<open>Index-to-token resolution\<close>

text \<open>
  C4. Whenever a rendering of \<open>Topk\<close> returns tables, the sample has a token list, and
  for every rank \<open>r\<close> and neuron column \<open>n\<close> of \<open>topkIdxs\<close> the cell of \<open>topkTokens\<close> at
  \<open>[r][n]\<close> is that token list read at the index \<open>topkIdxs[r][n]\<close>.
\<close>

theorem topk_token_at_index:
  assumes run: "Topk prim tokens activations st = Inr d"
    and r: "r < length (topkIdxs d)" and n: "n < length (topkIdxs d ! r)"
  shows "\<exists>currentTokens. js_index tokens (sampleNumber st) = Some currentTokens \<and>
           r < length (topkTokens d) \<and> n < length (topkTokens d ! r) \<and>
           topkTokens d ! r ! n = js_index currentTokens (topkIdxs d ! r ! n)"
proof -
  from Topk_InrD[OF run] obtain A where
    "topkBottomk prim (js_index tokens (sampleNumber st)) A (kValue st) = Inr d" ..
  from topkBottomk_InrD[OF this] obtain toks where
    ct: "js_index tokens (sampleNumber st) = Some toks"
    and tt: "topkTokens d = tokensAt toks (topkIdxs d)"
    by blast
  have "r < length (topkTokens d)"
    unfolding tt length_tokensAt by (rule r)
  moreover have "n < length (topkTokens d ! r)"
    unfolding tt length_tokensAt_row[OF r] by (rule n)
  moreover have "topkTokens d ! r ! n = js_index toks (topkIdxs d ! r ! n)"
    unfolding tt by (rule tokensAt_nth[OF r n])
  ultimately show ?thesis
    using ct by blast
qed

theorem topk_token_at_index_witness:
  "Topk topk_sorted example_props_tokens example_props_activations example_state = Inr example_tables \<and>
   0 < length (topkIdxs example_tables) \<and> 1 < length (topkIdxs example_tables ! 0) \<and>
   (\<exists>currentTokens. js_index example_props_tokens (sampleNumber example_state) = Some currentTokens \<and>
           0 < length (topkTokens example_tables) \<and> 1 < length (topkTokens example_tables ! 0) \<and>
           topkTokens example_tables ! 0 ! 1 = js_index currentTokens (topkIdxs example_tables ! 0 ! 1)) \<and>
   topkTokens example_tables ! 0 ! 1 = Some ''c''"
proof -
  have h2: "0 < length (topkIdxs example_tables)"
    and h3: "1 < length (topkIdxs example_tables ! 0)"
    and v: "topkTokens example_tables ! 0 ! 1 = Some ''c''"
    by (simp_all add: example_tables_def)
  show ?thesis
    by (intro conjI example_Topk_run h2 h3 v topk_token_at_index[OF example_Topk_run h2 h3])
qed

text \<open>
  C7. The resolution of indices to tokens checks no bounds: for every token list, of any
  length, every activation matrix of shape \<open>[N x T]\<close>, every \<open>k\<close> with \<open>1 \<le> k \<le> T\<close> and
  every top-k primitive that meets its contract, the extraction returns tables, with no
  error, and each token cell of the top-k and of the bottom-k table is the token at the
  cell's index when the index is inside the token list and \<open>undefined\<close> when it is not.
\<close>

theorem token_resolution_unchecked:
  assumes c: "topk_contract prim" and sh: "shape2 A = (N, T)" and k1: "1 \<le> k" and k2: "k \<le> T"
  shows "\<exists>d. topkBottomk prim (Some currentTokens) A k = Inr d \<and>
           (\<forall>r<k. \<forall>n<N.
              topkTokens d ! r ! n =
                (if topkIdxs d ! r ! n < length currentTokens
                 then Some (currentTokens ! (topkIdxs d ! r ! n)) else None) \<and>
              bottomkTokens d ! r ! n =
                (if bottomkIdxs d ! r ! n < length currentTokens
                 then Some (currentTokens ! (bottomkIdxs d ! r ! n)) else None))"
proof -
  obtain tv ti where t: "tfTopk prim A k = Inr (tv, ti)"
    using tfTopk_succeeds[OF c sh k1 k2] by blast
  have shm: "shape2 (mul A (- 1)) = (N, T)"
    using sh by (simp add: shape2_mul)
  obtain bv bi where b: "tfTopk prim (mul A (- 1)) k = Inr (bv, bi)"
    using tfTopk_succeeds[OF c shm k1 k2] by blast
  note p = tfTopk_props[OF c sh k1 k2 t]
  note q = tfTopk_props_negated[OF c sh k1 k2 b]
  define d where "d = \<lparr> topkVals = arraySync (transpose2 tv),
             topkIdxs = arraySync (transpose2 ti),
             topkTokens = tokensAt currentTokens (arraySync (transpose2 ti)),
             bottomkVals = arraySync (transpose2 (reverse_last (mul bv (- 1)))),
             bottomkIdxs = arraySync (transpose2 (reverse_last bi)),
             bottomkTokens = tokensAt currentTokens (arraySync (transpose2 (reverse_last bi))) \<rparr>"
  have run: "topkBottomk prim (Some currentTokens) A k = Inr d"
    unfolding d_def by (rule topkBottomk_eq[OF t b])
  have ti: "topkIdxs d = arraySync (transpose2 ti)"
    and tt: "topkTokens d = tokensAt currentTokens (arraySync (transpose2 ti))"
    and bi: "bottomkIdxs d = arraySync (transpose2 (reverse_last bi))"
    and bt: "bottomkTokens d = tokensAt currentTokens (arraySync (transpose2 (reverse_last bi)))"
    by (simp_all add: d_def)
  have shi: "shape2 (reverse_last bi) = (N, k)"
    using q(2) by (simp add: shape2_reverse_last)
  have cell: "topkTokens d ! r ! n =
                (if topkIdxs d ! r ! n < length currentTokens
                 then Some (currentTokens ! (topkIdxs d ! r ! n)) else None) \<and>
              bottomkTokens d ! r ! n =
                (if bottomkIdxs d ! r ! n < length currentTokens
                 then Some (currentTokens ! (bottomkIdxs d ! r ! n)) else None)"
    if r: "r < k" and n: "n < N" for r n
  proof -
    have "r < length (arraySync (transpose2 ti))"
      using r by (simp only: length_arraySync_transpose2[OF p(2)])
    moreover have "n < length (arraySync (transpose2 ti) ! r)"
      using n by (simp only: length_arraySync_transpose2_row[OF p(2) r])
    ultimately have top: "topkTokens d ! r ! n = js_index currentTokens (topkIdxs d ! r ! n)"
      unfolding tt ti by (rule tokensAt_nth)
    have "r < length (arraySync (transpose2 (reverse_last bi)))"
      using r by (simp only: length_arraySync_transpose2[OF shi])
    moreover have "n < length (arraySync (transpose2 (reverse_last bi)) ! r)"
      using n by (simp only: length_arraySync_transpose2_row[OF shi r])
    ultimately have bot: "bottomkTokens d ! r ! n = js_index currentTokens (bottomkIdxs d ! r ! n)"
      unfolding bt bi by (rule tokensAt_nth)
    show ?thesis
      unfolding top bot by (simp add: js_index_def)
  qed
  have cells: "\<forall>r<k. \<forall>n<N.
              topkTokens d ! r ! n =
                (if topkIdxs d ! r ! n < length currentTokens
                 then Some (currentTokens ! (topkIdxs d ! r ! n)) else None) \<and>
              bottomkTokens d ! r ! n =
                (if bottomkIdxs d ! r ! n < length currentTokens
                 then Some (currentTokens ! (bottomkIdxs d ! r ! n)) else None)"
    by (intro allI impI) (rule cell)
  show ?thesis
    by (intro exI[of _ d] conjI run cells)
qed

theorem token_resolution_unchecked_witness:
  "topk_contract topk_sorted \<and> shape2 example_activations = (2, 3) \<and>
   (1::nat) \<le> 2 \<and> (2::nat) \<le> 3 \<and> length example_short_tokens = 1 \<and>
   (\<exists>d. topkBottomk topk_sorted (Some example_short_tokens) example_activations 2 = Inr d \<and>
           (\<forall>r<2. \<forall>n<2.
              topkTokens d ! r ! n =
                (if topkIdxs d ! r ! n < length example_short_tokens
                 then Some (example_short_tokens ! (topkIdxs d ! r ! n)) else None) \<and>
              bottomkTokens d ! r ! n =
                (if bottomkIdxs d ! r ! n < length example_short_tokens
                 then Some (example_short_tokens ! (bottomkIdxs d ! r ! n)) else None))) \<and>
   topkBottomk topk_sorted (Some example_short_tokens) example_activations 2 =
     Inr example_short_tables \<and>
   topkIdxs example_short_tables ! 0 ! 1 = 2 \<and>
   topkTokens example_short_tables ! 0 ! 1 = None"
proof -
  have h1: "shape2 example_activations = (2, 3)"
    by (simp add: example_activations_def)
  have h2: "(1::nat) \<le> 2" and h3: "(2::nat) \<le> 3"
    by simp_all
  have l: "length example_short_tokens = 1"
    by (simp add: example_short_tokens_def)
  have v: "topkIdxs example_short_tables ! 0 ! 1 = 2"
    "topkTokens example_short_tables ! 0 ! 1 = None"
    by (simp_all add: example_short_tables_def)
  show ?thesis
    by (intro conjI topk_sorted_contract h1 h2 h3 l example_short_run v
          token_resolution_unchecked[OF topk_sorted_contract h1 h2 h3, of example_short_tokens])
qed

section \<open>Selection state and selectors\<close>

text \<open>
  C6. The options of the selector of \<open>k\<close> are the integers 1 to 20 in ascending order;
  \<open>NumberSelector\<close> with \<open>smallestNumber \<le> largestNumber\<close> offers the consecutive integers
  from \<open>smallestNumber\<close> to \<open>largestNumber\<close>; and the extraction returns tables of \<open>k\<close>
  ranks for every \<open>k\<close> from 1 up to the token count \<open>T\<close>, with no other bound on \<open>k\<close>.
\<close>

theorem k_selector_one_to_twenty:
  "k_selector_options = Inr [1, 2, 3, 4, 5, 6, 7, 8, 9, 10, 11, 12, 13, 14, 15, 16, 17, 18, 19, 20] \<and>
   (smallestNumber \<le> largestNumber \<longrightarrow>
      NumberSelector_options smallestNumber largestNumber = Inr [smallestNumber..largestNumber]) \<and>
   (topk_contract prim \<and> shape2 A = (N, T) \<and> 1 \<le> k \<and> k \<le> T \<longrightarrow>
      (\<exists>d. topkBottomk prim (Some toks) A k = Inr d \<and>
         length (topkVals d) = k \<and> length (bottomkVals d) = k))"
proof (intro conjI impI)
  have "[1..20] = [1, 2, 3, 4, 5, 6, 7, 8, 9, 10, 11, 12, 13, 14, 15, 16, 17, 18, 19, (20::int)]"
    by (simp add: upto_rec1)
  then show "k_selector_options =
      Inr [1, 2, 3, 4, 5, 6, 7, 8, 9, 10, 11, 12, 13, 14, 15, 16, 17, 18, 19, 20]"
    by (simp add: k_selector_options_def NumberSelector_options_upto)
next
  assume "smallestNumber \<le> largestNumber"
  then show "NumberSelector_options smallestNumber largestNumber = Inr [smallestNumber..largestNumber]"
    by (rule NumberSelector_options_upto)
next
  assume h: "topk_contract prim \<and> shape2 A = (N, T) \<and> 1 \<le> k \<and> k \<le> T"
  then have c: "topk_contract prim" and sh: "shape2 A = (N, T)" and k1: "1 \<le> k" and k2: "k \<le> T"
    by simp_all
  obtain tv ti where t: "tfTopk prim A k = Inr (tv, ti)"
    using tfTopk_succeeds[OF c sh k1 k2] by blast
  have shm: "shape2 (mul A (- 1)) = (N, T)"
    using sh by (simp add: shape2_mul)
  obtain bv bi where b: "tfTopk prim (mul A (- 1)) k = Inr (bv, bi)"
    using tfTopk_succeeds[OF c shm k1 k2] by blast
  note p = tfTopk_props[OF c sh k1 k2 t]
  note q = tfTopk_props_negated[OF c sh k1 k2 b]
  have shv: "shape2 (reverse_last (mul bv (- 1))) = (N, k)"
    using q(1) by (simp add: shape2_reverse_last shape2_mul)
  show "\<exists>d. topkBottomk prim (Some toks) A k = Inr d \<and>
         length (topkVals d) = k \<and> length (bottomkVals d) = k"
    unfolding topkBottomk_eq[OF t b]
    by (simp add: length_arraySync_transpose2[OF p(1)] length_arraySync_transpose2[OF shv])
qed

theorem k_selector_one_to_twenty_witness:
  "k_selector_options = Inr [1, 2, 3, 4, 5, 6, 7, 8, 9, 10, 11, 12, 13, 14, 15, 16, 17, 18, 19, 20] \<and>
   (3::int) \<le> 5 \<and> NumberSelector_options 3 5 = Inr [3, 4, 5] \<and>
   topk_contract topk_sorted \<and> shape2 example_wide_activations = (1, 25) \<and>
   (1::nat) \<le> 21 \<and> (21::nat) \<le> 25 \<and>
   (\<exists>d. topkBottomk topk_sorted (Some example_tokens) example_wide_activations 21 = Inr d \<and>
      length (topkVals d) = 21 \<and> length (bottomkVals d) = 21)"
proof -
  note th = k_selector_one_to_twenty[of 3 5 topk_sorted example_wide_activations 1 25 21 example_tokens]
  have h1: "shape2 example_wide_activations = (1, 25)"
    by (simp add: example_wide_activations_def)
  have u: "[3..5] = [3, 4, (5::int)]"
    by (simp add: upto_rec1)
  from th have a: "k_selector_options =
      Inr [1, 2, 3, 4, 5, 6, 7, 8, 9, 10, 11, 12, 13, 14, 15, 16, 17, 18, 19, 20]"
    by (rule conjunct1)
  from th have b: "NumberSelector_options 3 5 = Inr [3, 4, 5]"
    by (simp add: u)
  from th h1 topk_sorted_contract
  have e: "\<exists>d. topkBottomk topk_sorted (Some example_tokens) example_wide_activations 21 = Inr d \<and>
      length (topkVals d) = 21 \<and> length (bottomkVals d) = 21"
    by simp
  show ?thesis
    using a b e h1 topk_sorted_contract by simp
qed

text \<open>
  C5 as stated fails with a single sample: changing \<open>colsToShow\<close> from 5 to 3 leaves the
  neuron numbers at \<open>[0]\<close>, not at the first three neurons.
\<close>

theorem setColsToShow_single_sample_counterexample:
  "colsToShow (initialState 1) \<noteq> 3 \<and>
   neuronNumbers (setColsToShow 1 3 (initialState 1)) = [0] \<and>
   neuronNumbers (setColsToShow 1 3 (initialState 1)) \<noteq> [0, 1, 2]"
  by (simp add: setColsToShow_def initialState_def firstNeurons_def)

text \<open>
  C5, amended. Whenever \<open>colsToShow\<close> changes to a value \<open>c\<close>, the neuron numbers become
  the first \<open>c\<close> neurons \<open>[0, ..., c - 1]\<close> when there is more than one sample, and
  \<open>[0]\<close> otherwise.
\<close>

theorem setColsToShow_neuronNumbers:
  assumes "c \<noteq> colsToShow st"
  shows "colsToShow (setColsToShow numberOfSamples c st) = c \<and>
         neuronNumbers (setColsToShow numberOfSamples c st) =
           (if numberOfSamples > 1 then [0..<c] else [0])"
  using assms by (simp add: setColsToShow_def firstNeurons_def)

theorem setColsToShow_neuronNumbers_witness:
  "3 \<noteq> colsToShow (initialState 2) \<and>
   colsToShow (setColsToShow 2 3 (initialState 2)) = 3 \<and>
   neuronNumbers (setColsToShow 2 3 (initialState 2)) = [0, 1, 2]"
proof -
  have h: "3 \<noteq> colsToShow (initialState 2)"
    by (simp add: initialState_def)
  from setColsToShow_neuronNumbers[OF h, of 2]
  show ?thesis
    using h by (simp add: upt_3)
qed

text \<open>
  C10. For every \<open>smallestNumber \<le> largestNumber\<close> and \<open>numValsInRange \<ge> 1\<close> the loop of
  \<open>RangeSelector\<close> ends, and its labels print a list of ranges \<open>(start, end)\<close> that
  partition the interval: the ranges, one after the other, enumerate
  \<open>smallestNumber, ..., largestNumber\<close> in ascending order (so they are consecutive,
  disjoint and cover the interval), none is empty or holds more than \<open>numValsInRange\<close>
  integers, and every range but the last holds exactly \<open>numValsInRange\<close>.
\<close>

theorem RangeSelector_ranges_partition:
  assumes le: "smallestNumber \<le> largestNumber" and n: "1 \<le> numValsInRange"
  shows "\<exists>bs. bounds_loop smallestNumber largestNumber numValsInRange = Some bs \<and>
           RangeSelector_ranges smallestNumber largestNumber numValsInRange =
             Some (map (\<lambda>(s, e). rangeLabel s e) bs) \<and>
           bs \<noteq> [] \<and>
           concat (map (\<lambda>(s, e). [s..e]) bs) = [smallestNumber..largestNumber] \<and>
           (\<forall>(s, e)\<in>set bs. s \<le> e \<and> e - s + 1 \<le> numValsInRange) \<and>
           (\<forall>(s, e)\<in>set (butlast bs). e - s + 1 = numValsInRange)"
proof -
  from bounds_loop_total[OF n] obtain bs where
    b: "bounds_loop smallestNumber largestNumber numValsInRange = Some bs"
    by blast
  have r: "RangeSelector_ranges smallestNumber largestNumber numValsInRange =
             Some (map (\<lambda>(s, e). rangeLabel s e) bs)"
    by (simp add: RangeSelector_ranges_def ranges_loop_bounds b)
  have ne: "bs \<noteq> []"
    using bounds_loop_step[OF le n b] by blast
  show ?thesis
    by (intro exI[of _ bs] conjI b r ne bounds_loop_concat[OF n b]
          bounds_loop_sizes[OF n b] bounds_loop_full[OF n b])
qed

theorem RangeSelector_ranges_partition_witness:
  "(0::int) \<le> 4 \<and> (1::int) \<le> 2 \<and>
   (\<exists>bs. bounds_loop 0 4 2 = Some bs \<and>
           RangeSelector_ranges 0 4 2 = Some (map (\<lambda>(s, e). rangeLabel s e) bs) \<and>
           bs \<noteq> [] \<and>
           concat (map (\<lambda>(s, e). [s..e]) bs) = [0..4] \<and>
           (\<forall>(s, e)\<in>set bs. s \<le> e \<and> e - s + 1 \<le> 2) \<and>
           (\<forall>(s, e)\<in>set (butlast bs). e - s + 1 = 2)) \<and>
   bounds_loop 0 4 2 = Some [(0, 1), (2, 3), (4, 4)] \<and>
   RangeSelector_ranges 0 4 2 = Some [''0-1'', ''2-3'', ''4'']"
proof -
  have h1: "(0::int) \<le> 4" and h2: "(1::int) \<le> 2"
    by simp_all
  show ?thesis
    by (intro conjI h1 h2 example_bounds example_ranges
          RangeSelector_ranges_partition[OF h1 h2])
qed

end
